theory Spec2Isabelle
  imports Complex_Main
begin

section \<open>Numbers and errors of the Python program\<close>

text \<open>
  The program computes on \<open>numpy.float64\<close> values. The embedding idealises the finite
  floats as real numbers (no rounding error, no overflow) and keeps the three special
  values a division by zero can produce, since the behaviour of the analyzer on a silent
  recording depends on them. Where a result depends on how the machine rounds a
  quotient, or on a quotient that overflows, the quantizer's loop is also given with the
  quotient as a parameter (\<open>while_division_with\<close> below), of which the exact division is
  one instance.
\<close>

datatype np_float = Finite real | PInf | NInf | NaN

datatype error =
  FileNotFoundError | ValueError | ZeroDivisionError | IndexError | OverflowError

text \<open>\<open>a / b\<close> on float64 values as numpy computes it: a warning, never an exception.
  Only the cases with a finite divisor occur in the program.\<close>

fun np_div :: "np_float \<Rightarrow> np_float \<Rightarrow> np_float" where
  "np_div (Finite a) (Finite b) =
     (if b \<noteq> 0 then Finite (a / b)
      else if a = 0 then NaN
      else if 0 < a then PInf else NInf)"
| "np_div PInf (Finite b) = (if 0 \<le> b then PInf else NInf)"
| "np_div NInf (Finite b) = (if 0 \<le> b then NInf else PInf)"
| "np_div a b = NaN"

fun np_sqrt :: "np_float \<Rightarrow> np_float" where
  "np_sqrt (Finite a) = (if 0 \<le> a then Finite (sqrt a) else NaN)"
| "np_sqrt PInf = PInf"
| "np_sqrt NInf = NaN"
| "np_sqrt NaN = NaN"

fun np_mul :: "np_float \<Rightarrow> real \<Rightarrow> np_float" where
  "np_mul (Finite a) k = Finite (a * k)"
| "np_mul PInf k = (if 0 < k then PInf else if k < 0 then NInf else NaN)"
| "np_mul NInf k = (if 0 < k then NInf else if k < 0 then PInf else NaN)"
| "np_mul NaN k = NaN"

text \<open>\<open>max\<close> of two float64 values as \<open>numpy.max\<close> combines them: a NaN wins.\<close>

fun np_max2 :: "np_float \<Rightarrow> np_float \<Rightarrow> np_float" where
  "np_max2 NaN b = NaN"
| "np_max2 a NaN = NaN"
| "np_max2 PInf b = PInf"
| "np_max2 a PInf = PInf"
| "np_max2 NInf b = b"
| "np_max2 a NInf = a"
| "np_max2 (Finite a) (Finite b) = Finite (max a b)"

text \<open>Python's \<open>round(x)\<close> with one argument: the nearest integer, a tie going to the
  even neighbour.\<close>

definition py_round :: "real \<Rightarrow> int" where
  "py_round x =
     (let f = \<lfloor>x\<rfloor>; d = x - of_int f
      in if d < 1 / 2 then f
         else if 1 / 2 < d then f + 1
         else if even f then f else f + 1)"

text \<open>\<open>round\<close> on a float64: NaN and the infinities have no integer and raise.\<close>

fun np_round :: "np_float \<Rightarrow> error + int" where
  "np_round (Finite x) = Inr (py_round x)"
| "np_round NaN = Inl ValueError"
| "np_round PInf = Inl OverflowError"
| "np_round NInf = Inl OverflowError"

section \<open>Level quantizer: \<open>get_number_of_rectangles\<close>\<close>

text \<open>The two threshold tables, and the \<open>ValueError\<close> of every other FPS.\<close>

definition energy_thresholds :: "int \<Rightarrow> error + real list" where
  "energy_thresholds FPS =
     (if FPS = 10 then Inr [1/10, 8/10, 16/10, 24/10, 32/10, 4, 5, 6, 7, 8, 10]
      else if FPS = 15 then Inr [6/10, 1, 15/10, 2, 25/10, 3, 35/10, 4, 5, 7, 10]
      else Inl ValueError)"

text \<open>
  The inner \<open>while division != 1\<close> loop, on its two variables \<open>counter\<close> and
  \<open>division\<close>. Reading \<open>energy_thresholds[counter]\<close> past the end of the list raises
  \<open>IndexError\<close> (the counter never goes negative).
\<close>

function while_division ::
  "real list \<Rightarrow> np_float \<Rightarrow> nat \<Rightarrow> int \<Rightarrow> error + nat" where
  "while_division ths each_chunk counter division =
     (if division \<noteq> 1 then
        (if counter < length ths then
           (case np_round (np_div each_chunk (Finite (ths ! counter))) of
              Inl err \<Rightarrow> Inl err
            | Inr r \<Rightarrow>
                if r = 0 then while_division ths each_chunk counter 1
                else while_division ths each_chunk (counter + 1) r)
         else Inl IndexError)
      else Inr counter)"
  by pat_completeness auto
termination
  by (relation "measure (\<lambda>(ths, e, c, d). 2 * (length ths - c) + (if d \<noteq> 1 then 1 else 0))")
    auto

text \<open>The level saved for one chunk: 0 for counter 0, else \<open>counter*2 + 1\<close>. The array
  holds \<open>uint8\<close>; the counter is at most the table length 11, so nothing wraps.\<close>

definition level_of_counter :: "nat \<Rightarrow> nat" where
  "level_of_counter counter = (if counter = 0 then 0 else counter * 2 + 1)"

definition chunk_level :: "real list \<Rightarrow> np_float \<Rightarrow> error + nat" where
  "chunk_level ths each_chunk =
     (case while_division ths each_chunk 0 0 of
        Inl err \<Rightarrow> Inl err
      | Inr counter \<Rightarrow> Inr (level_of_counter counter))"

text \<open>The \<open>for\<close> loop over the chunks: the first exception ends it.\<close>

fun chunk_levels :: "real list \<Rightarrow> np_float list \<Rightarrow> error + nat list" where
  "chunk_levels ths [] = Inr []"
| "chunk_levels ths (e # es) =
     (case chunk_level ths e of
        Inl err \<Rightarrow> Inl err
      | Inr l \<Rightarrow> (case chunk_levels ths es of
                   Inl err \<Rightarrow> Inl err
                 | Inr ls \<Rightarrow> Inr (l # ls)))"

definition get_number_of_rectangles :: "np_float list \<Rightarrow> int \<Rightarrow> error + nat list" where
  "get_number_of_rectangles energy_of_chunks FPS =
     (case energy_thresholds FPS of
        Inl err \<Rightarrow> Inl err
      | Inr ths \<Rightarrow> chunk_levels ths energy_of_chunks)"

text \<open>The per-chunk iteration count of the loop above (how often its body runs), by the
  same recursion.\<close>

function while_iterations :: "real list \<Rightarrow> np_float \<Rightarrow> nat \<Rightarrow> int \<Rightarrow> nat" where
  "while_iterations ths each_chunk counter division =
     (if division \<noteq> 1 then
        (if counter < length ths then
           (case np_round (np_div each_chunk (Finite (ths ! counter))) of
              Inl err \<Rightarrow> 1
            | Inr r \<Rightarrow>
                if r = 0 then 1 + while_iterations ths each_chunk counter 1
                else 1 + while_iterations ths each_chunk (counter + 1) r)
         else 1)
      else 0)"
  by pat_completeness auto
termination
  by (relation "measure (\<lambda>(ths, e, c, d). 2 * (length ths - c) + (if d \<noteq> 1 then 1 else 0))")
    auto

subsection \<open>The loop over any float64 quotient\<close>

text \<open>
  The quotient \<open>each_chunk / energy_thresholds[counter]\<close> is a float64: the nearest
  double to the exact quotient of the energy by the double the threshold's literal
  denotes, an infinity where that overflows. The functions below are the same loop and
  the same function body with this quotient as a parameter \<open>quot\<close>, given the energy and
  the threshold as written in the table; \<open>exact_quotient\<close>, the division without
  rounding, is the instance the functions above use.
\<close>

type_synonym quotient = "np_float \<Rightarrow> real \<Rightarrow> np_float"

definition exact_quotient :: quotient where
  "exact_quotient each_chunk threshold = np_div each_chunk (Finite threshold)"

function while_division_with ::
  "quotient \<Rightarrow> real list \<Rightarrow> np_float \<Rightarrow> nat \<Rightarrow> int \<Rightarrow> error + nat" where
  "while_division_with quot ths each_chunk counter division =
     (if division \<noteq> 1 then
        (if counter < length ths then
           (case np_round (quot each_chunk (ths ! counter)) of
              Inl err \<Rightarrow> Inl err
            | Inr r \<Rightarrow>
                if r = 0 then while_division_with quot ths each_chunk counter 1
                else while_division_with quot ths each_chunk (counter + 1) r)
         else Inl IndexError)
      else Inr counter)"
  by pat_completeness auto
termination
  by (relation
      "measure (\<lambda>(q, ths, e, c, d). 2 * (length ths - c) + (if d \<noteq> 1 then 1 else 0))")
    auto

definition chunk_level_with :: "quotient \<Rightarrow> real list \<Rightarrow> np_float \<Rightarrow> error + nat" where
  "chunk_level_with quot ths each_chunk =
     (case while_division_with quot ths each_chunk 0 0 of
        Inl err \<Rightarrow> Inl err
      | Inr counter \<Rightarrow> Inr (level_of_counter counter))"

fun chunk_levels_with :: "quotient \<Rightarrow> real list \<Rightarrow> np_float list \<Rightarrow> error + nat list" where
  "chunk_levels_with quot ths [] = Inr []"
| "chunk_levels_with quot ths (e # es) =
     (case chunk_level_with quot ths e of
        Inl err \<Rightarrow> Inl err
      | Inr l \<Rightarrow> (case chunk_levels_with quot ths es of
                   Inl err \<Rightarrow> Inl err
                 | Inr ls \<Rightarrow> Inr (l # ls)))"

definition get_number_of_rectangles_with ::
  "quotient \<Rightarrow> np_float list \<Rightarrow> int \<Rightarrow> error + nat list" where
  "get_number_of_rectangles_with quot energy_of_chunks FPS =
     (case energy_thresholds FPS of
        Inl err \<Rightarrow> Inl err
      | Inr ths \<Rightarrow> chunk_levels_with quot ths energy_of_chunks)"

subsection \<open>The quantization rule in words\<close>

text \<open>
  The rule as the specification words it: walk the thresholds from the first, round
  \<open>e / threshold\<close>, stop only at a rounded ratio of 0 with the current index, otherwise
  advance; at the end of the table the counter is clamped to the last index.
\<close>

fun spec_walk :: "real list \<Rightarrow> real \<Rightarrow> nat \<Rightarrow> nat" where
  "spec_walk [] e c = c - 1"
| "spec_walk (t # ts) e c = (if py_round (e / t) = 0 then c else spec_walk ts e (c + 1))"

definition spec_level :: "real list \<Rightarrow> real \<Rightarrow> nat" where
  "spec_level ths e = (let c = spec_walk ths e 0 in if c = 0 then 0 else c * 2 + 1)"

text \<open>
  The rule the loop implements, on a finite energy with the exact quotient: a rounded
  ratio of 0 stops at the current index, a rounded ratio of 1 stops at the next index,
  any other ratio advances. \<open>None\<close> is the walk that leaves the table.
\<close>

fun ratio_walk :: "real list \<Rightarrow> real \<Rightarrow> nat \<Rightarrow> nat option" where
  "ratio_walk [] e c = None"
| "ratio_walk (t # ts) e c =
     (let r = py_round (e / t)
      in if r = 0 then Some c
         else if r = 1 then Some (c + 1)
         else ratio_walk ts e (c + 1))"

definition ratio_level :: "real list \<Rightarrow> real \<Rightarrow> error + nat" where
  "ratio_level ths e =
     (case ratio_walk ths e 0 of
        None \<Rightarrow> Inl IndexError
      | Some c \<Rightarrow> Inr (if c = 0 then 0 else c * 2 + 1))"

text \<open>
  The same rule over the float64 quotient, for any energy the array can hold: the
  quotient of the energy by the current threshold is rounded to the nearest integer
  (ties to even); a NaN quotient has no integer and raises \<open>ValueError\<close>, an infinite one
  \<open>OverflowError\<close>; 0 stops at the current index, 1 at the next index, any other ratio
  advances; leaving the table raises \<open>IndexError\<close>.
\<close>

fun quotient_walk :: "quotient \<Rightarrow> real list \<Rightarrow> np_float \<Rightarrow> nat \<Rightarrow> error + nat" where
  "quotient_walk quot [] e c = Inl IndexError"
| "quotient_walk quot (t # ts) e c =
     (case np_round (quot e t) of
        Inl err \<Rightarrow> Inl err
      | Inr r \<Rightarrow>
          if r = 0 then Inr c
          else if r = 1 then Inr (c + 1)
          else quotient_walk quot ts e (c + 1))"

section \<open>Audio preprocessor: \<open>load_and_process_audio\<close>\<close>

text \<open>
  The audio library (pydub) is outside the repository: its operations are the fields of
  a record, over any representation \<open>'rec\<close> of a recording. \<open>from_file\<close> gives \<open>None\<close>
  where pydub raises \<open>FileNotFoundError\<close>.
\<close>

record 'rec audio_lib =
  from_file :: "string \<Rightarrow> 'rec option"
  channels :: "'rec \<Rightarrow> nat"
  set_channels :: "'rec \<Rightarrow> nat \<Rightarrow> 'rec"
  normalize :: "'rec \<Rightarrow> 'rec"
  remove_dc_offset :: "'rec \<Rightarrow> 'rec"

definition load_and_process_audio :: "'rec audio_lib \<Rightarrow> string \<Rightarrow> error + 'rec" where
  "load_and_process_audio lib audio_file_name =
     (case from_file lib audio_file_name of
        None \<Rightarrow> Inl FileNotFoundError
      | Some record0 \<Rightarrow>
          let record1 = (if channels lib record0 \<noteq> 1 then set_channels lib record0 1
                         else record0)
          in Inr (remove_dc_offset lib (normalize lib record1)))"

subsection \<open>The two operations in words\<close>

text \<open>
  The library operations as the specification describes them, on a mono stream of real
  samples: DC-offset removal subtracts the stream's mean, peak normalization scales the
  largest absolute sample to the maximum 1 of the range (a silent stream is left as it
  is).
\<close>

definition spec_remove_dc_offset :: "real list \<Rightarrow> real list" where
  "spec_remove_dc_offset xs =
     (if xs = [] then xs else map (\<lambda>x. x - sum_list xs / real (length xs)) xs)"

definition peak :: "real list \<Rightarrow> real" where
  "peak xs = fold (\<lambda>x m. max \<bar>x\<bar> m) xs 0"

definition spec_normalize :: "real list \<Rightarrow> real list" where
  "spec_normalize xs = (if peak xs = 0 then xs else map (\<lambda>x. x / peak xs) xs)"

definition spec_lib :: "real list \<Rightarrow> real list audio_lib" where
  "spec_lib stream =
     \<lparr> from_file = (\<lambda>name. Some stream),
       channels = (\<lambda>r. 1),
       set_channels = (\<lambda>r n. r),
       normalize = spec_normalize,
       remove_dc_offset = spec_remove_dc_offset \<rparr>"

section \<open>Chunk energy analyzer: \<open>calculate_energy_level_of_chunks\<close>\<close>

text \<open>\<open>np.mean(tmp**2)\<close> of one chunk of integer samples; the mean of no samples is
  NaN.\<close>

definition mean_square :: "int list \<Rightarrow> real" where
  "mean_square chunk = sum_list (map (\<lambda>x. (real_of_int x)\<^sup>2) chunk) / real (length chunk)"

definition mean_energy :: "int list \<Rightarrow> np_float" where
  "mean_energy chunk = (if chunk = [] then NaN else Finite (mean_square chunk))"

text \<open>\<open>ndarray.max()\<close>: \<open>ValueError\<close> on an array of size 0.\<close>

fun np_max :: "np_float list \<Rightarrow> error + np_float" where
  "np_max [] = Inl ValueError"
| "np_max (x # xs) = Inr (fold (\<lambda>y m. np_max2 m y) xs x)"

text \<open>
  \<open>make_chunks\<close> (pydub) is a parameter: it maps the recording and the chunk length in
  milliseconds to the list of the chunks' samples. \<open>1000/FPS\<close> raises for \<open>FPS = 0\<close>.
\<close>

definition calculate_energy_level_of_chunks ::
  "('rec \<Rightarrow> real \<Rightarrow> int list list) \<Rightarrow> 'rec \<Rightarrow> int \<Rightarrow> error + np_float list" where
  "calculate_energy_level_of_chunks make_chunks record0 FPS =
     (if FPS = 0 then Inl ZeroDivisionError
      else
        let chunks = make_chunks record0 (1000 / real_of_int FPS);
            energy_of_chunks = map mean_energy chunks
        in case np_max energy_of_chunks of
             Inl err \<Rightarrow> Inl err
           | Inr m \<Rightarrow> Inr (map (\<lambda>x. np_mul (np_sqrt (np_div x m)) 10) energy_of_chunks))"

section \<open>Frame renderer: \<open>draw_column\<close> and \<open>draw_rectangles\<close>\<close>

text \<open>
  An image is the list of the filled rectangles drawn on the background so far, in
  drawing order. Counts are Python integers: \<open>count - 2\<close> and \<open>count - 4\<close> may be
  negative (the levels arrive as \<open>uint8\<close> scalars, and subtracting a Python integer
  from one promotes to a signed integer in the numpy the program was written for).
\<close>

record rectangle =
  pt1 :: "int \<times> int"
  pt2 :: "int \<times> int"
  color :: "int \<times> int \<times> int"

type_synonym image = "rectangle list"

text \<open>\<open>int(x)\<close> on a float truncates towards zero.\<close>

definition py_int :: "real \<Rightarrow> int" where
  "py_int x = (if 0 \<le> x then \<lfloor>x\<rfloor> else \<lceil>x\<rceil>)"

text \<open>\<open>x % y\<close> on floats, for the positive divisors the renderer uses.\<close>

definition py_fmod :: "real \<Rightarrow> real \<Rightarrow> real" where
  "py_fmod x y = x - of_int \<lfloor>x / y\<rfloor> * y"

definition rect_coords :: "int \<times> int \<Rightarrow> int \<Rightarrow> int \<Rightarrow> (int \<times> int) \<times> (int \<times> int)" where
  "rect_coords center width height =
     ((py_int (real_of_int (fst center) - real_of_int width / 2),
       py_int (real_of_int (snd center) - real_of_int height / 2)),
      (py_int (real_of_int (fst center) + real_of_int width / 2),
       py_int (real_of_int (snd center) + real_of_int height / 2)))"

definition cv2_rectangle :: "image \<Rightarrow> (int \<times> int) \<times> (int \<times> int) \<Rightarrow> int \<times> int \<times> int \<Rightarrow> image" where
  "cv2_rectangle img pts col = img @ [\<lparr> pt1 = fst pts, pt2 = snd pts, color = col \<rparr>]"

text \<open>One pass of the body of the \<open>for i in range(0, count)\<close> loop: three \<open>if\<close>s in a row,
  with \<open>vspace = 5\<close> and \<open>red = 150\<close>.\<close>

definition column_body :: "int \<times> int \<Rightarrow> int \<Rightarrow> int \<Rightarrow> int \<Rightarrow> int \<Rightarrow> image \<Rightarrow> image" where
  "column_body center count width height i img =
     (let vspace = 5; red = 150;
          img1 = (if i = 0
                  then cv2_rectangle img (rect_coords center width height) (0, 0, red)
                  else img);
          img2 = (if 0 < i \<and> real_of_int i < real_of_int count / 2
                  then cv2_rectangle img1
                         (rect_coords (fst center, snd center + i * (height + vspace)) width height)
                         (0, 0, red + 10 * i)
                  else img1);
          img3 = (if real_of_int count / 2 < real_of_int i
                  then cv2_rectangle img2
                         (rect_coords
                            (fst center,
                             snd center - (i - \<lfloor>real_of_int count / 2\<rfloor>) * (height + vspace))
                            width height)
                         (0, 0, red + 10 * \<lceil>py_fmod (real_of_int i) (real_of_int count / 2)\<rceil>)
                  else img2)
      in img3)"

definition draw_column :: "image \<Rightarrow> int \<times> int \<Rightarrow> int \<Rightarrow> int \<Rightarrow> int \<Rightarrow> image" where
  "draw_column img center count width height =
     fold (column_body center count width height) [0..count - 1] img"

text \<open>One pass of the loop over the column positions \<open>[-2, -1, 0, 1, 2]\<close>, with
  \<open>hspace = 40\<close>.\<close>

definition rectangles_body :: "int \<times> int \<Rightarrow> int \<Rightarrow> int \<Rightarrow> int \<Rightarrow> int \<Rightarrow> image \<Rightarrow> image" where
  "rectangles_body center count width height i img =
     (let hspace = 40;
          img1 = (if i = 0
                  then draw_column img (fst center + i * hspace, snd center) count width height
                  else img);
          img2 = (if i = - 1 \<or> i = 1
                  then draw_column img1 (fst center + i * hspace, snd center) (count - 2)
                         width height
                  else img1);
          img3 = (if i = - 2 \<or> i = 2
                  then draw_column img2 (fst center + i * hspace, snd center) (count - 4)
                         width height
                  else img2)
      in img3)"

definition draw_rectangles :: "image \<Rightarrow> int \<times> int \<Rightarrow> int \<Rightarrow> int \<Rightarrow> int \<Rightarrow> image" where
  "draw_rectangles img center_coordinate_of_column count width height =
     fold (rectangles_body center_coordinate_of_column count width height)
       [- 2, - 1, 0, 1, 2] img"

text \<open>The rectangles one call of \<open>draw_column\<close> adds to an empty image.\<close>

definition column_rectangles :: "int \<times> int \<Rightarrow> int \<Rightarrow> int \<Rightarrow> int \<Rightarrow> image" where
  "column_rectangles center count width height = draw_column [] center count width height"

section \<open>The pipeline of \<open>main.py\<close>\<close>

text \<open>
  The script calls the stages in a fixed order; the model returns the stages entered,
  in order, with the outcome. \<open>FPS\<close> is the script's constant, here an argument. The
  frames of \<open>process_video\<close> are drawn on copies of a background of the given size
  (rectangles 20 by 6, centre shifted down by 150); the muxer is an external process.
\<close>

datatype stage = LoadAudio | EnergyAnalysis | Quantization | Rendering | Muxing

definition process_video :: "nat list \<Rightarrow> int \<times> int \<Rightarrow> image list" where
  "process_video number_of_rectangles img_size =
     (let rect_w = 20; rect_h = 6; additional_vspace = 150;
          center_position = (py_round (real_of_int (fst img_size) / 2),
                             py_round (real_of_int (snd img_size) / 2) + additional_vspace)
      in map (\<lambda>each_chunk. draw_rectangles [] center_position (int each_chunk) rect_w rect_h)
           number_of_rectangles)"

definition main ::
  "'rec audio_lib \<Rightarrow> ('rec \<Rightarrow> real \<Rightarrow> int list list) \<Rightarrow> string \<Rightarrow> int \<times> int \<Rightarrow> int
     \<Rightarrow> stage list \<times> (error + image list)" where
  "main lib make_chunks audio_file_name img_size FPS =
     (case load_and_process_audio lib audio_file_name of
        Inl err \<Rightarrow> ([LoadAudio], Inl err)
      | Inr record0 \<Rightarrow>
          (case calculate_energy_level_of_chunks make_chunks record0 FPS of
             Inl err \<Rightarrow> ([LoadAudio, EnergyAnalysis], Inl err)
           | Inr energy_of_chunks \<Rightarrow>
               (case get_number_of_rectangles energy_of_chunks FPS of
                  Inl err \<Rightarrow> ([LoadAudio, EnergyAnalysis, Quantization], Inl err)
                | Inr number_of_rectangles \<Rightarrow>
                    ([LoadAudio, EnergyAnalysis, Quantization, Rendering, Muxing],
                     Inr (process_video number_of_rectangles img_size)))))"

section \<open>Rounding\<close>

lemma py_round_eq_0_iff: "py_round x = 0 \<longleftrightarrow> - (1 / 2) \<le> x \<and> x \<le> 1 / 2"
proof -
  have "\<lfloor>x\<rfloor> = 0 \<or> \<lfloor>x\<rfloor> = - 1 \<or> \<lfloor>x\<rfloor> < - 1 \<or> 0 < \<lfloor>x\<rfloor>" by arith
  then show ?thesis
    unfolding py_round_def Let_def
    by (elim disjE) (auto, linarith+)
qed

lemma py_round_eq_1_iff: "py_round x = 1 \<longleftrightarrow> 1 / 2 < x \<and> x < 3 / 2"
proof -
  have "\<lfloor>x\<rfloor> = 0 \<or> \<lfloor>x\<rfloor> = 1 \<or> \<lfloor>x\<rfloor> < 0 \<or> 1 < \<lfloor>x\<rfloor>" by arith
  then show ?thesis
    unfolding py_round_def Let_def
    by (elim disjE) (auto, linarith+)
qed

declare while_division.simps [simp del] while_iterations.simps [simp del]

lemma while_division_done: "while_division ths e c 1 = Inr c"
  by (subst while_division.simps) simp

lemma while_iterations_done: "while_iterations ths e c 1 = 0"
  by (subst while_iterations.simps) simp

declare while_division_with.simps [simp del]

lemma while_division_with_done: "while_division_with quot ths e c 1 = Inr c"
  by (subst while_division_with.simps) simp

lemma while_division_with_walk:
  assumes "d \<noteq> 1"
  shows "while_division_with quot ths e c d = quotient_walk quot (drop c ths) e c"
  using assms
proof (induction "length ths - c" arbitrary: c d)
  case 0
  then show ?case by (subst while_division_with.simps) simp
next
  case (Suc n)
  then have lt: "c < length ths" by simp
  have dr: "drop c ths = ths ! c # drop (Suc c) ths"
    using lt by (simp add: Cons_nth_drop_Suc)
  have n: "n = length ths - Suc c" using Suc.hyps(2) by simp
  show ?case
  proof (cases "np_round (quot e (ths ! c))")
    case (Inl err)
    then show ?thesis using lt Suc.prems dr
      by (subst while_division_with.simps) simp
  next
    case (Inr r)
    show ?thesis
    proof (cases "r = 0 \<or> r = 1")
      case True
      then show ?thesis using lt Suc.prems dr Inr
        by (subst while_division_with.simps) (auto simp: while_division_with_done)
    next
      case False
      then have r1: "r \<noteq> 1" by simp
      have "while_division_with quot ths e (Suc c) r
              = quotient_walk quot (drop (Suc c) ths) e (Suc c)"
        using Suc.hyps(1)[OF n r1] .
      then show ?thesis using lt Suc.prems dr Inr False
        by (subst while_division_with.simps) simp
    qed
  qed
qed

lemma while_division_exact:
  "while_division ths e c d = while_division_with exact_quotient ths e c d"
proof (induction ths e c d rule: while_division.induct)
  case (1 ths e c d)
  show ?case
  proof (cases "d \<noteq> 1 \<and> c < length ths")
    case False
    then show ?thesis
      by (subst while_division.simps, subst while_division_with.simps) auto
  next
    case True
    show ?thesis
    proof (cases "np_round (np_div e (Finite (ths ! c)))")
      case (Inl err)
      then show ?thesis using True
        by (subst while_division.simps, subst while_division_with.simps)
          (simp add: exact_quotient_def)
    next
      case (Inr r)
      show ?thesis
      proof (cases "r = 0")
        case True
        with Inr \<open>d \<noteq> 1 \<and> c < length ths\<close> show ?thesis
          by (subst while_division.simps, subst while_division_with.simps)
            (simp add: exact_quotient_def while_division_done while_division_with_done)
      next
        case False
        from "1.IH"(2)[OF _ _ Inr False] True
        have "while_division ths e (c + 1) r
                = while_division_with exact_quotient ths e (c + 1) r"
          by simp
        with Inr False True show ?thesis
          by (subst while_division.simps, subst while_division_with.simps)
            (simp add: exact_quotient_def)
      qed
    qed
  qed
qed

lemma chunk_level_exact: "chunk_level ths e = chunk_level_with exact_quotient ths e"
  by (simp add: chunk_level_def chunk_level_with_def while_division_exact)

lemma chunk_levels_exact: "chunk_levels ths es = chunk_levels_with exact_quotient ths es"
  by (induction es) (simp_all add: chunk_level_exact split: sum.splits)

lemma get_number_of_rectangles_exact:
  "get_number_of_rectangles es FPS = get_number_of_rectangles_with exact_quotient es FPS"
  by (simp add: get_number_of_rectangles_def get_number_of_rectangles_with_def
      chunk_levels_exact split: sum.splits)

lemma while_division_walk:
  assumes "0 \<notin> set ths" and "d \<noteq> 1"
  shows "while_division ths (Finite e) c d =
           (case ratio_walk (drop c ths) e c of None \<Rightarrow> Inl IndexError | Some k \<Rightarrow> Inr k)"
  using assms
proof (induction "length ths - c" arbitrary: c d)
  case 0
  then show ?case by (subst while_division.simps) simp
next
  case (Suc n)
  then have lt: "c < length ths" by simp
  then have nz: "ths ! c \<noteq> 0" using Suc.prems(1) by (metis nth_mem)
  have dr: "drop c ths = ths ! c # drop (Suc c) ths"
    using lt by (simp add: Cons_nth_drop_Suc)
  have n: "n = length ths - Suc c" using Suc.hyps(2) by simp
  show ?case
  proof (cases "py_round (e / ths ! c) = 0")
    case True
    then show ?thesis using lt nz Suc.prems(2) dr
      by (subst while_division.simps) (simp add: while_division_done)
  next
    case r0: False
    show ?thesis
    proof (cases "py_round (e / ths ! c) = 1")
      case True
      then show ?thesis using lt nz Suc.prems(2) dr
        by (subst while_division.simps) (simp add: while_division_done)
    next
      case False
      have "while_division ths (Finite e) (Suc c) (py_round (e / ths ! c)) =
           (case ratio_walk (drop (Suc c) ths) e (Suc c) of None \<Rightarrow> Inl IndexError | Some k \<Rightarrow> Inr k)"
        using Suc.hyps(1)[OF n Suc.prems(1) False] .
      then show ?thesis using lt nz Suc.prems(2) dr r0 False
        by (subst while_division.simps) (simp add: Let_def)
    qed
  qed
qed


lemma chunk_level_ratio:
  assumes "0 \<notin> set ths"
  shows "chunk_level ths (Finite e) = ratio_level ths e"
  using while_division_walk[OF assms, of 0 e 0]
  by (simp add: chunk_level_def ratio_level_def level_of_counter_def split: option.splits)

lemma thresholds_10:
  "energy_thresholds 10 = Inr [1/10, 8/10, 16/10, 24/10, 32/10, 4, 5, 6, 7, 8, 10]"
  by (simp add: energy_thresholds_def)

lemma thresholds_15:
  "energy_thresholds 15 = Inr [6/10, 1, 15/10, 2, 25/10, 3, 35/10, 4, 5, 7, 10]"
  by (simp add: energy_thresholds_def)

lemma thresholds_nonzero: "energy_thresholds FPS = Inr ths \<Longrightarrow> 0 \<notin> set ths"
  by (auto simp: energy_thresholds_def split: if_splits)

lemma quantize_single:
  assumes "energy_thresholds FPS = Inr ths"
  shows "get_number_of_rectangles [Finite e] FPS =
           (case ratio_level ths e of Inl err \<Rightarrow> Inl err | Inr l \<Rightarrow> Inr [l])"
  using assms chunk_level_ratio[OF thresholds_nonzero[OF assms], of e]
  by (simp add: get_number_of_rectangles_def split: sum.splits)

lemma py_round_half: "py_round (real_of_int k + 1 / 2) = (if even k then k else k + 1)"
proof -
  have "\<lfloor>real_of_int k + 1 / 2\<rfloor> = k" by linarith
  then show ?thesis by (simp add: py_round_def Let_def)
qed

subsection \<open>The walk on the two tables\<close>

lemma walk_10:
  assumes "0 \<le> e" and "e \<le> 10"
  shows "ratio_walk [1/10, 8/10, 16/10, 24/10, 32/10, 4, 5, 6, 7, 8, 10] e 0 =
    Some (if e \<le> 5 / 100 then 0 else if e \<le> 4 / 10 then 1 else if e < 12 / 10 then 2
          else if e < 24 / 10 then 3 else if e < 36 / 10 then 4 else if e < 48 / 10 then 5
          else if e < 6 then 6 else if e < 75 / 10 then 7 else if e < 9 then 8 else 9)"
  using assms
  by (simp add: py_round_eq_0_iff py_round_eq_1_iff Let_def)

lemma walk_15:
  assumes "0 \<le> e" and "e \<le> 10"
  shows "ratio_walk [6/10, 1, 15/10, 2, 25/10, 3, 35/10, 4, 5, 7, 10] e 0 =
    Some (if e \<le> 3 / 10 then 0 else if e < 9 / 10 then 1 else if e < 15 / 10 then 2
          else if e < 225 / 100 then 3 else if e < 3 then 4 else if e < 375 / 100 then 5
          else if e < 45 / 10 then 6 else if e < 525 / 100 then 7 else if e < 6 then 8
          else if e < 75 / 10 then 9 else 10)"
  using assms
  by (simp add: py_round_eq_0_iff py_round_eq_1_iff Let_def)


lemma walk_bounded:
  assumes "energy_thresholds FPS = Inr ths" and "0 \<le> e" and "e \<le> 10"
  shows "\<exists>c. ratio_walk ths e 0 = Some c \<and> c \<le> 10"
proof -
  from assms(1) have "FPS = 10 \<or> FPS = 15"
    by (auto simp: energy_thresholds_def split: if_splits)
  then show ?thesis
  proof
    assume "FPS = 10"
    with assms(1) have "ths = [1/10, 8/10, 16/10, 24/10, 32/10, 4, 5, 6, 7, 8, 10]"
      by (simp add: thresholds_10)
    then show ?thesis using walk_10[OF assms(2,3)] by simp
  next
    assume "FPS = 15"
    with assms(1) have "ths = [6/10, 1, 15/10, 2, 25/10, 3, 35/10, 4, 5, 7, 10]"
      by (simp add: thresholds_15)
    then show ?thesis using walk_15[OF assms(2,3)] by simp
  qed
qed

lemma walk_mono:
  assumes "energy_thresholds FPS = Inr ths" and "0 \<le> e1" and "e1 \<le> e2" and "e2 \<le> 10"
  shows "\<exists>c1 c2. ratio_walk ths e1 0 = Some c1 \<and> ratio_walk ths e2 0 = Some c2 \<and> c1 \<le> c2"
proof -
  have b1: "0 \<le> e1" "e1 \<le> 10" and b2: "0 \<le> e2" "e2 \<le> 10" using assms by auto
  from assms(1) have "FPS = 10 \<or> FPS = 15"
    by (auto simp: energy_thresholds_def split: if_splits)
  then show ?thesis
  proof
    assume "FPS = 10"
    with assms(1) have "ths = [1/10, 8/10, 16/10, 24/10, 32/10, 4, 5, 6, 7, 8, 10]"
      by (simp add: thresholds_10)
    then show ?thesis using walk_10[OF b1] walk_10[OF b2] assms(3) by simp
  next
    assume "FPS = 15"
    with assms(1) have "ths = [6/10, 1, 15/10, 2, 25/10, 3, 35/10, 4, 5, 7, 10]"
      by (simp add: thresholds_15)
    then show ?thesis using walk_15[OF b1] walk_15[OF b2] assms(3) by simp
  qed
qed

lemma walk_exhausted:
  assumes "energy_thresholds FPS = Inr ths" and "15 \<le> e"
  shows "ratio_walk ths e 0 = None"
proof -
  from assms(1) have "FPS = 10 \<or> FPS = 15"
    by (auto simp: energy_thresholds_def split: if_splits)
  then show ?thesis
  proof
    assume "FPS = 10"
    with assms(1) have "ths = [1/10, 8/10, 16/10, 24/10, 32/10, 4, 5, 6, 7, 8, 10]"
      by (simp add: thresholds_10)
    then show ?thesis using assms(2)
      by (simp add: py_round_eq_0_iff py_round_eq_1_iff Let_def)
  next
    assume "FPS = 15"
    with assms(1) have "ths = [6/10, 1, 15/10, 2, 25/10, 3, 35/10, 4, 5, 7, 10]"
      by (simp add: thresholds_15)
    then show ?thesis using assms(2)
      by (simp add: py_round_eq_0_iff py_round_eq_1_iff Let_def)
  qed
qed

lemma thresholds_length: "energy_thresholds FPS = Inr ths \<Longrightarrow> length ths = 11"
  by (auto simp: energy_thresholds_def split: if_splits)

lemma while_iterations_bound:
  "d \<noteq> 1 \<Longrightarrow> while_division ths e c d = Inr k
     \<Longrightarrow> c \<le> k \<and> while_iterations ths e c d \<le> k - c + 1"
proof (induction ths e c d arbitrary: k rule: while_division.induct)
  case (1 ths e c d)
  from "1.prems" have lt: "c < length ths"
    by (subst (asm) while_division.simps) (simp split: if_splits)
  from "1.prems" lt obtain r where r: "np_round (np_div e (Finite (ths ! c))) = Inr r"
    by (subst (asm) while_division.simps) (simp split: sum.splits)
  show ?case
  proof (cases "r = 0")
    case True
    with "1.prems" lt r have "k = c"
      by (subst (asm) while_division.simps) (simp add: while_division_done)
    moreover have "while_iterations ths e c d = 1"
      using "1.prems"(1) lt r True
      by (subst while_iterations.simps) (simp add: while_iterations_done)
    ultimately show ?thesis by simp
  next
    case False
    from "1.prems" lt r False have rec: "while_division ths e (c + 1) r = Inr k"
      by (subst (asm) while_division.simps) simp
    have it: "while_iterations ths e c d = 1 + while_iterations ths e (c + 1) r"
      using "1.prems"(1) lt r False by (subst while_iterations.simps) simp
    show ?thesis
    proof (cases "r = 1")
      case True
      with rec have "k = c + 1" by (simp add: while_division_done)
      moreover have "while_iterations ths e (c + 1) r = 0"
        using True by (simp add: while_iterations_done)
      ultimately show ?thesis using it by simp
    next
      case r1: False
      from "1.IH"(2)[OF "1.prems"(1) lt r False r1 rec]
      show ?thesis using it by (simp, arith)
    qed
  qed
qed

lemma chunk_levels_map:
  assumes "\<forall>e\<in>set es. chunk_level ths (Finite e) = Inr (f e)"
  shows "chunk_levels ths (map Finite es) = Inr (map f es)"
  using assms by (induction es) simp_all


lemma supported_thresholds:
  "FPS = 10 \<or> FPS = 15 \<Longrightarrow> \<exists>ths. energy_thresholds FPS = Inr ths"
  by (auto simp: energy_thresholds_def)

lemma chunk_level_bounded:
  assumes "energy_thresholds FPS = Inr ths" and "0 \<le> e" and "e \<le> 10"
  shows "\<exists>c. ratio_walk ths e 0 = Some c \<and> c \<le> 10
           \<and> chunk_level ths (Finite e) = Inr (level_of_counter c)"
proof -
  from walk_bounded[OF assms] obtain c where c: "ratio_walk ths e 0 = Some c" "c \<le> 10"
    by blast
  then have "chunk_level ths (Finite e) = Inr (level_of_counter c)"
    using chunk_level_ratio[OF thresholds_nonzero[OF assms(1)], of e]
    by (simp add: ratio_level_def level_of_counter_def)
  with c show ?thesis by blast
qed

lemma level_of_counter_shape: "c \<le> 10 \<Longrightarrow>
  (level_of_counter c = 0 \<or> odd (level_of_counter c)) \<and> level_of_counter c \<le> 21"
  by (simp add: level_of_counter_def)

lemma level_of_counter_mono: "c1 \<le> c2 \<Longrightarrow> level_of_counter c1 \<le> level_of_counter c2"
  by (simp add: level_of_counter_def)

section \<open>The analyzer on finite energies\<close>

lemma mean_square_nonneg: "0 \<le> mean_square c"
  unfolding mean_square_def
  by (intro divide_nonneg_nonneg sum_list_nonneg) auto

lemma mean_square_zero: "\<forall>x\<in>set c. x = 0 \<Longrightarrow> mean_square c = 0"
  unfolding mean_square_def by (induction c) auto

lemma sum_squares_pos: "\<exists>x\<in>set c. x \<noteq> 0 \<Longrightarrow> 0 < sum_list (map (\<lambda>x. (real_of_int x)\<^sup>2) c)"
proof (induction c)
  case Nil
  then show ?case by simp
next
  case (Cons a c)
  have nn: "0 \<le> sum_list (map (\<lambda>x. (real_of_int x)\<^sup>2) c)"
    by (intro sum_list_nonneg) auto
  show ?case
  proof (cases "a = 0")
    case True
    with Cons show ?thesis by simp
  next
    case False
    then have "0 < (real_of_int a)\<^sup>2" by simp
    then have "0 < (real_of_int a)\<^sup>2 + sum_list (map (\<lambda>x. (real_of_int x)\<^sup>2) c)"
      using nn by (rule add_pos_nonneg)
    then show ?thesis by simp
  qed
qed

lemma mean_square_pos: "\<exists>x\<in>set c. x \<noteq> 0 \<Longrightarrow> 0 < mean_square c"
proof -
  assume a: "\<exists>x\<in>set c. x \<noteq> 0"
  then have "c \<noteq> []" by auto
  then have "0 < real (length c)" by simp
  with sum_squares_pos[OF a] show ?thesis
    unfolding mean_square_def by (rule divide_pos_pos)
qed

lemma fold_np_max2_Finite:
  "fold (\<lambda>y m. np_max2 m y) (map Finite rs) (Finite r) = Finite (fold max rs r)"
  by (induction rs arbitrary: r) (simp_all add: max.commute)

lemma np_max_Finite:
  "rs \<noteq> [] \<Longrightarrow> np_max (map Finite rs) = Inr (Finite (Max (set rs)))"
proof (cases rs)
  case Nil
  assume "rs \<noteq> []"
  with Nil show ?thesis by simp
next
  case (Cons r rs')
  have "Max (set (r # rs')) = fold max rs' r" by (rule Max.set_eq_fold)
  with Cons show ?thesis by (simp add: fold_np_max2_Finite)
qed

lemma mean_energy_nonempty:
  "\<forall>c\<in>set chunks. c \<noteq> [] \<Longrightarrow> map mean_energy chunks = map Finite (map mean_square chunks)"
  by (induction chunks) (simp_all add: mean_energy_def)

lemma rescale_Finite:
  "0 < m \<Longrightarrow> 0 \<le> a \<Longrightarrow>
     np_mul (np_sqrt (np_div (Finite a) (Finite m))) 10 = Finite (sqrt (a / m) * 10)"
  by simp

lemma rescale_zero: "np_mul (np_sqrt (np_div (Finite 0) (Finite 0))) 10 = NaN"
  by simp


lemma analyzer_finite:
  assumes "FPS \<noteq> 0" and "make_chunks record0 (1000 / real_of_int FPS) = chunks"
    and "chunks \<noteq> []" and "\<forall>c\<in>set chunks. c \<noteq> []"
  shows "calculate_energy_level_of_chunks make_chunks record0 FPS =
           Inr (map (\<lambda>a. np_mul (np_sqrt (np_div (Finite a)
                  (Finite (Max (set (map mean_square chunks)))))) 10)
                 (map mean_square chunks))"
proof -
  have ne: "map mean_square chunks \<noteq> []" using assms(3) by simp
  show ?thesis
    using assms(1,2) np_max_Finite[OF ne]
    by (simp add: calculate_energy_level_of_chunks_def Let_def
        mean_energy_nonempty[OF assms(4)] comp_def)
qed

section \<open>The columns of the renderer\<close>

lemma column_body_length:
  assumes "0 \<le> i" and "i < count"
  shows "length (column_body center count width height i img) =
           length img + (if 2 * i = count then 0 else 1)"
proof -
  have h: "real_of_int i < real_of_int count / 2 \<longleftrightarrow> 2 * i < count"
    "real_of_int count / 2 < real_of_int i \<longleftrightarrow> count < 2 * i"
    by linarith+
  show ?thesis using assms
    by (auto simp: column_body_def cv2_rectangle_def Let_def h)
qed

lemma column_body_append:
  "column_body center count width height i img =
     img @ column_body center count width height i []"
  by (simp add: column_body_def cv2_rectangle_def Let_def)

lemma fold_column_body_append:
  "fold (column_body center count width height) xs img =
     img @ fold (column_body center count width height) xs []"
proof (induction xs arbitrary: img)
  case Nil
  then show ?case by simp
next
  case (Cons x xs)
  show ?case
    using Cons.IH[of "column_body center count width height x img"]
      Cons.IH[of "column_body center count width height x []"]
      column_body_append[of center count width height x img]
    by simp
qed

lemma draw_column_append:
  "draw_column img center count width height = img @ column_rectangles center count width height"
  unfolding draw_column_def column_rectangles_def by (rule fold_column_body_append)

lemma fold_column_body_length:
  assumes "\<forall>i\<in>set xs. 0 \<le> i \<and> i < count \<and> 2 * i \<noteq> count"
  shows "length (fold (column_body center count width height) xs img) = length img + length xs"
  using assms
  by (induction xs arbitrary: img) (simp_all add: column_body_length)

lemma column_rectangles_length_odd:
  assumes "odd count"
  shows "length (column_rectangles center count width height) = nat count"
proof -
  have "\<forall>i\<in>set [0..count - 1]. 0 \<le> i \<and> i < count \<and> 2 * i \<noteq> count"
    using assms by auto
  from fold_column_body_length[OF this, of center width height "[]"]
  show ?thesis by (simp add: column_rectangles_def draw_column_def)
qed

lemma column_rectangles_nonpos:
  "count \<le> 0 \<Longrightarrow> column_rectangles center count width height = []"
  by (simp add: column_rectangles_def draw_column_def)

lemma draw_rectangles_columns:
  "draw_rectangles img (cx, cy) count width height =
     img @ column_rectangles (cx - 80, cy) (count - 4) width height
         @ column_rectangles (cx - 40, cy) (count - 2) width height
         @ column_rectangles (cx, cy) count width height
         @ column_rectangles (cx + 40, cy) (count - 2) width height
         @ column_rectangles (cx + 80, cy) (count - 4) width height"
  by (simp add: draw_rectangles_def rectangles_body_def Let_def draw_column_append)

lemma upto_0_0: "[0..(0::int)] = [0]"
  by (simp add: upto.simps)

section \<open>Claim about the audio preprocessor\<close>

text \<open>
  C2. The specification has the preprocessor remove the DC offset first and normalize
  the peak second. The code calls \<open>record.normalize().remove_dc_offset()\<close>: it
  normalizes first. On the stream \<open>[0, 0.5]\<close>, with the two operations as the
  specification describes them, the code returns \<open>[-0.5, 0.5]\<close>, whose peak is 0.5;
  the stated order returns \<open>[-1, 1]\<close>.
\<close>

theorem preprocessor_normalizes_before_dc_removal:
  "load_and_process_audio (spec_lib [0, 1 / 2]) ''a.mp3'' = Inr [- (1 / 2), 1 / 2]
   \<and> Inr (spec_normalize (spec_remove_dc_offset [0, 1 / 2])) = (Inr [- 1, 1] :: error + real list)
   \<and> peak [- (1 / 2), 1 / 2] = 1 / 2"
  by (simp add: load_and_process_audio_def spec_lib_def spec_normalize_def
      spec_remove_dc_offset_def peak_def)

section \<open>Claims about the chunk energy analyzer\<close>

text \<open>
  C3, as stated, fails on the code: nothing guards the division by the maximum. For
  two silent windows the analyzer returns two NaN values (0 / 0), not two zeros.
\<close>

theorem silent_input_counterexample:
  "calculate_energy_level_of_chunks (\<lambda>r d. r) [[0, 0], [0]] 10 = Inr [NaN, NaN]
   \<and> calculate_energy_level_of_chunks (\<lambda>r d. r) [[0, 0], [0]] 10 \<noteq> Inr [Finite 0, Finite 0]"
  by (simp add: calculate_energy_level_of_chunks_def mean_energy_def mean_square_def)

text \<open>
  C3 (amended). For an all-silent input of at least one window, each window holding at
  least one sample, the analyzer divides by the zero maximum without a guard: it raises
  no error itself and returns one NaN per window.
\<close>

theorem silent_input_yields_nan:
  assumes "FPS \<noteq> 0" and "make_chunks record0 (1000 / real_of_int FPS) = chunks"
    and "chunks \<noteq> []" and "\<forall>c\<in>set chunks. c \<noteq> [] \<and> (\<forall>x\<in>set c. x = 0)"
  shows "calculate_energy_level_of_chunks make_chunks record0 FPS =
           Inr (replicate (length chunks) NaN)"
proof -
  have ne: "\<forall>c\<in>set chunks. c \<noteq> []" using assms(4) by blast
  have "map mean_square chunks = map (\<lambda>c. 0) chunks"
    using assms(4) by (intro map_cong) (auto simp: mean_square_zero)
  then have z: "map mean_square chunks = replicate (length chunks) 0"
    by (simp add: map_replicate_const)
  have "Max (set (replicate (length chunks) (0::real))) = 0"
    using assms(3) by simp
  then show ?thesis
    using analyzer_finite[of FPS make_chunks record0 chunks] assms(1,2,3) ne by (simp add: z)
qed

theorem silent_input_yields_nan_witness:
  "(10::int) \<noteq> 0
   \<and> (\<lambda>r d. r) [[0, 0], [0 :: int]] (1000 / real_of_int 10) = [[0, 0], [0]]
   \<and> [[0, 0], [0 :: int]] \<noteq> []
   \<and> [0, 0 :: int] \<noteq> [] \<and> [0 :: int] \<noteq> []
   \<and> calculate_energy_level_of_chunks (\<lambda>r d. r) [[0, 0], [0]] 10 = Inr [NaN, NaN]"
  using silent_input_yields_nan[of 10 "\<lambda>r d. r" "[[0, 0], [0]]" "[[0, 0], [0]]"]
  by (simp add: eval_nat_numeral)

text \<open>
  C5. For an input that is not all-silent (windows non-empty, some sample non-zero),
  the analyzer returns finite energy values, one per window, each equal to
  \<open>sqrt (raw mean energy / maximum raw mean energy) * 10\<close>; their maximum is exactly 10
  and each lies in \<open>[0, 10]\<close>.
\<close>

theorem energies_max_10:
  assumes "FPS \<noteq> 0" and "make_chunks record0 (1000 / real_of_int FPS) = chunks"
    and "\<forall>c\<in>set chunks. c \<noteq> []" and "\<exists>c\<in>set chunks. \<exists>x\<in>set c. x \<noteq> 0"
  shows "\<exists>es. calculate_energy_level_of_chunks make_chunks record0 FPS = Inr (map Finite es)
           \<and> length es = length chunks
           \<and> Max (set es) = 10
           \<and> (\<forall>v\<in>set es. 0 \<le> v \<and> v \<le> 10)
           \<and> (\<forall>i<length chunks.
                 es ! i = sqrt (mean_square (chunks ! i)
                                / Max (set (map mean_square chunks))) * 10)"
proof -
  define rs where "rs = map mean_square chunks"
  define m where "m = Max (set rs)"
  define es where "es = map (\<lambda>a. sqrt (a / m) * 10) rs"
  from assms(4) have ne: "chunks \<noteq> []" by auto
  then have rne: "set rs \<noteq> {}" by (simp add: rs_def)
  have nonneg: "0 \<le> a" if "a \<in> set rs" for a
    using that by (auto simp: rs_def mean_square_nonneg)
  from assms(4) obtain c where c: "c \<in> set chunks" "\<exists>x\<in>set c. x \<noteq> 0" by blast
  have "mean_square c \<in> set rs" using c(1) by (simp add: rs_def)
  then have "mean_square c \<le> m" unfolding m_def by (intro Max_ge) simp_all
  with mean_square_pos[OF c(2)] have mpos: "0 < m" by simp
  have le_m: "a \<le> m" if "a \<in> set rs" for a
    using that unfolding m_def by (intro Max_ge) simp_all
  have m_in: "m \<in> set rs" unfolding m_def using rne by (intro Max_in) simp_all
  have res: "calculate_energy_level_of_chunks make_chunks record0 FPS = Inr (map Finite es)"
    using analyzer_finite[of FPS make_chunks record0 chunks] assms(1,2,3) ne nonneg mpos
    by (simp add: es_def rs_def[symmetric] m_def[symmetric] comp_def)
  have bound: "0 \<le> v \<and> v \<le> 10" if "v \<in> set es" for v
  proof -
    from that obtain a where a: "a \<in> set rs" "v = sqrt (a / m) * 10" by (auto simp: es_def)
    have "0 \<le> a / m" using nonneg[OF a(1)] mpos by simp
    moreover have "a / m \<le> 1" using le_m[OF a(1)] mpos by simp
    then have "sqrt (a / m) \<le> 1" by simp
    ultimately show ?thesis using a(2) by simp
  qed
  have "sqrt (m / m) * 10 \<in> set es" using m_in unfolding es_def by (intro imageI[of m "set rs" "\<lambda>a. sqrt (a / m) * 10", simplified set_map[symmetric]])
  then have ten: "10 \<in> set es" using mpos by simp
  have mx: "Max (set es) = 10"
    by (intro Max_eqI) (use bound ten in auto)
  have "\<forall>i<length chunks. es ! i = sqrt (mean_square (chunks ! i) / m) * 10"
    by (simp add: es_def rs_def)
  then show ?thesis using res mx bound
    by (intro exI[of _ es]) (simp add: es_def rs_def m_def)
qed

theorem energies_max_10_witness:
  "(10::int) \<noteq> 0
   \<and> (\<lambda>r d. r) [[3, - 3], [0 :: int]] (1000 / real_of_int 10) = [[3, - 3], [0]]
   \<and> [3, - 3 :: int] \<noteq> [] \<and> [0 :: int] \<noteq> [] \<and> (3 :: int) \<noteq> 0
   \<and> (\<exists>es. calculate_energy_level_of_chunks (\<lambda>r d. r) [[3, - 3], [0]] 10 = Inr (map Finite es)
           \<and> length es = length [[3, - 3], [0 :: int]]
           \<and> Max (set es) = 10
           \<and> (\<forall>v\<in>set es. 0 \<le> v \<and> v \<le> 10)
           \<and> (\<forall>i<length [[3, - 3], [0 :: int]].
                 es ! i = sqrt (mean_square ([[3, - 3], [0]] ! i)
                                / Max (set (map mean_square [[3, - 3], [0]]))) * 10))"
  using energies_max_10[of 10 "\<lambda>r d. r" "[[3, - 3], [0]]" "[[3, - 3], [0]]"] by auto

section \<open>Claims about the quantizer\<close>

text \<open>
  C1, as the specification states it, fails on the code: the loop does not stop only at
  a rounded ratio of 0. With the table of FPS 10 and the energy 0.9 the program stores
  level 5 (0.9 / 0.8 rounds to 1, which ends the loop with the counter advanced to 2),
  while the stated rule walks on to counter 3 and level 7.
\<close>

theorem quantizer_rule_counterexample:
  "get_number_of_rectangles [Finite (9 / 10)] 10 = Inr [5]
   \<and> spec_level [1/10, 8/10, 16/10, 24/10, 32/10, 4, 5, 6, 7, 8, 10] (9 / 10) = 7
   \<and> get_number_of_rectangles [Finite (9 / 10)] 10
       \<noteq> Inr [spec_level [1/10, 8/10, 16/10, 24/10, 32/10, 4, 5, 6, 7, 8, 10] (9 / 10)]"
  by (simp add: quantize_single[OF thresholds_10] ratio_level_def spec_level_def)
    (simp add: py_round_def Let_def)

text \<open>
  C1 (amended). For every energy value \<open>e\<close> and supported FPS the counter of the
  \<open>while\<close> loop is the result of this walk over the ordered thresholds, from the first:
  take the float64 quotient of \<open>e\<close> by the current threshold and round it to the nearest
  integer (ties to even; a NaN quotient raises \<open>ValueError\<close>, an infinite one
  \<open>OverflowError\<close>); a rounded ratio of 0 stops with the current index as counter, a
  rounded ratio of 1 stops with the next index as counter, any other ratio advances to
  the next threshold; leaving the table raises \<open>IndexError\<close>. The level is 0 for counter
  0 and \<open>counter*2 + 1\<close> otherwise. This holds whatever the quotient operation returns,
  so for the machine's rounded division as for the exact one.
\<close>

theorem quantizer_counter_rule:
  assumes "energy_thresholds FPS = Inr ths"
  shows "while_division_with quot ths e 0 0 = quotient_walk quot ths e 0
         \<and> get_number_of_rectangles_with quot [e] FPS =
           (case quotient_walk quot ths e 0 of
              Inl err \<Rightarrow> Inl err
            | Inr c \<Rightarrow> Inr [if c = 0 then 0 else c * 2 + 1])"
proof
  show w: "while_division_with quot ths e 0 0 = quotient_walk quot ths e 0"
    using while_division_with_walk[of 0 quot ths e 0] by simp
  show "get_number_of_rectangles_with quot [e] FPS =
          (case quotient_walk quot ths e 0 of
             Inl err \<Rightarrow> Inl err
           | Inr c \<Rightarrow> Inr [if c = 0 then 0 else c * 2 + 1])"
    using assms
    by (simp add: get_number_of_rectangles_with_def chunk_level_with_def w
        level_of_counter_def split: sum.splits)
qed

theorem quantizer_counter_rule_witness:
  "energy_thresholds 10 = Inr [1/10, 8/10, 16/10, 24/10, 32/10, 4, 5, 6, 7, 8, 10]
   \<and> while_division_with exact_quotient
         [1/10, 8/10, 16/10, 24/10, 32/10, 4, 5, 6, 7, 8, 10] (Finite (9 / 10)) 0 0
       = Inr 2
   \<and> get_number_of_rectangles_with exact_quotient [Finite (9 / 10)] 10 = Inr [5]
   \<and> get_number_of_rectangles_with exact_quotient [NaN] 10 = Inl ValueError
   \<and> get_number_of_rectangles_with exact_quotient [PInf] 10 = Inl OverflowError"
  using quantizer_counter_rule[OF thresholds_10, of exact_quotient "Finite (9 / 10)"]
    quantizer_counter_rule[OF thresholds_10, of exact_quotient NaN]
    quantizer_counter_rule[OF thresholds_10, of exact_quotient PInf]
  by (simp add: thresholds_10 exact_quotient_def py_round_def Let_def)

text \<open>
  C6. For energies in \<open>[0, 10]\<close> and FPS 10 or 15 the quantizer returns one level per
  energy, and every level is 0 or odd and at most 21.
\<close>

theorem levels_zero_or_odd_upto_21:
  assumes "FPS = 10 \<or> FPS = 15" and "\<forall>e\<in>set es. 0 \<le> e \<and> e \<le> 10"
  shows "\<exists>ls. get_number_of_rectangles (map Finite es) FPS = Inr ls
           \<and> length ls = length es
           \<and> (\<forall>l\<in>set ls. (l = 0 \<or> odd l) \<and> l \<le> 21)"
proof -
  from supported_thresholds[OF assms(1)] obtain ths where ths: "energy_thresholds FPS = Inr ths"
    by blast
  define f where "f e = level_of_counter (the (ratio_walk ths e 0))" for e
  have each: "chunk_level ths (Finite e) = Inr (f e) \<and> (f e = 0 \<or> odd (f e)) \<and> f e \<le> 21"
    if "e \<in> set es" for e
  proof -
    from that assms(2) have "0 \<le> e" "e \<le> 10" by auto
    from chunk_level_bounded[OF ths this] obtain c where
      c: "ratio_walk ths e 0 = Some c" "c \<le> 10"
         "chunk_level ths (Finite e) = Inr (level_of_counter c)"
      by blast
    then show ?thesis using level_of_counter_shape[OF c(2)] by (simp add: f_def)
  qed
  then have "chunk_levels ths (map Finite es) = Inr (map f es)"
    by (intro chunk_levels_map) blast
  then have "get_number_of_rectangles (map Finite es) FPS = Inr (map f es)"
    using ths by (simp add: get_number_of_rectangles_def)
  moreover have "\<forall>l\<in>set (map f es). (l = 0 \<or> odd l) \<and> l \<le> 21"
    using each by auto
  ultimately show ?thesis by (intro exI[of _ "map f es"]) simp
qed

theorem levels_zero_or_odd_upto_21_witness:
  "((10::int) = 10 \<or> (10::int) = 15)
   \<and> (0 :: real) \<le> 5 / 100 \<and> (5 / 100 :: real) \<le> 10
   \<and> (0 :: real) \<le> 9 / 10 \<and> (9 / 10 :: real) \<le> 10 \<and> (0 :: real) \<le> 10
   \<and> (\<exists>ls. get_number_of_rectangles (map Finite [5 / 100, 9 / 10, 10]) 10 = Inr ls
           \<and> length ls = length [5 / 100, 9 / 10, 10 :: real]
           \<and> (\<forall>l\<in>set ls. (l = 0 \<or> odd l) \<and> l \<le> 21))"
  using levels_zero_or_odd_upto_21[of 10 "[5 / 100, 9 / 10, 10]"] by simp

text \<open>
  C7. For a supported FPS and energies \<open>0 \<le> e1 < e2 \<le> 10\<close>, the level of \<open>e1\<close> is at
  most the level of \<open>e2\<close>.
\<close>

theorem quantizer_monotone:
  assumes "FPS = 10 \<or> FPS = 15" and "0 \<le> e1" and "e1 < e2" and "e2 \<le> 10"
  shows "\<exists>l1 l2. get_number_of_rectangles [Finite e1] FPS = Inr [l1]
           \<and> get_number_of_rectangles [Finite e2] FPS = Inr [l2]
           \<and> l1 \<le> l2"
proof -
  from supported_thresholds[OF assms(1)] obtain ths where ths: "energy_thresholds FPS = Inr ths"
    by blast
  from assms have le: "e1 \<le> e2" by simp
  from walk_mono[OF ths assms(2) le assms(4)] obtain c1 c2 where
    c: "ratio_walk ths e1 0 = Some c1" "ratio_walk ths e2 0 = Some c2" "c1 \<le> c2"
    by blast
  have "get_number_of_rectangles [Finite e1] FPS = Inr [level_of_counter c1]"
    using quantize_single[OF ths, of e1] c(1)
    by (simp add: ratio_level_def level_of_counter_def)
  moreover have "get_number_of_rectangles [Finite e2] FPS = Inr [level_of_counter c2]"
    using quantize_single[OF ths, of e2] c(2)
    by (simp add: ratio_level_def level_of_counter_def)
  ultimately show ?thesis using level_of_counter_mono[OF c(3)] by blast
qed

theorem quantizer_monotone_witness:
  "((15::int) = 10 \<or> (15::int) = 15) \<and> (0::real) \<le> 1 / 2 \<and> (1 / 2 :: real) < 3
   \<and> (3::real) \<le> 10
   \<and> (\<exists>l1 l2. get_number_of_rectangles [Finite (1 / 2)] 15 = Inr [l1]
           \<and> get_number_of_rectangles [Finite 3] 15 = Inr [l2]
           \<and> l1 \<le> l2)"
  using quantizer_monotone[of 15 "1 / 2" 3] by simp

text \<open>
  C8, as stated for every energy, fails on the code: there is no cap and no clamp.
  With the table of FPS 10 the energy 16 still has the rounded ratio 2 at the last
  threshold 10, so the loop reads \<open>energy_thresholds[11]\<close> and the call fails with
  \<open>IndexError\<close>.
\<close>

theorem walk_leaves_table_counterexample:
  "get_number_of_rectangles [Finite 16] 10 = Inl IndexError
   \<and> while_division [1/10, 8/10, 16/10, 24/10, 32/10, 4, 5, 6, 7, 8, 10] (Finite 16) 0 0
       = Inl IndexError"
  by (simp add: quantize_single[OF thresholds_10] ratio_level_def
      while_division_walk[of _ 0, simplified])
    (simp add: py_round_def Let_def)

text \<open>
  C8 (amended). For a supported FPS and an energy in \<open>[0, 10]\<close> the loop returns a
  counter inside the table after at most table-length (11) runs of its body, every
  threshold read being in bounds. Nothing caps the walk or clamps the counter: for an
  energy from 15 up to \<open>10^300\<close> (where every quotient is still finite) it reads past the
  last threshold and raises \<open>IndexError\<close>.
\<close>

theorem walk_in_table_upto_10:
  assumes "energy_thresholds FPS = Inr ths"
  shows "(0 \<le> e \<and> e \<le> 10 \<longrightarrow>
            (\<exists>c. while_division ths (Finite e) 0 0 = Inr c \<and> c < length ths
                 \<and> while_iterations ths (Finite e) 0 0 \<le> length ths))
         \<and> (15 \<le> e' \<and> e' \<le> 10 ^ 300 \<longrightarrow>
               while_division ths (Finite e') 0 0 = Inl IndexError
               \<and> get_number_of_rectangles [Finite e'] FPS = Inl IndexError)"
proof (intro conjI impI)
  assume e: "0 \<le> e \<and> e \<le> 10"
  then have "0 \<le> e" "e \<le> 10" by auto
  from walk_bounded[OF assms this] obtain c where c: "ratio_walk ths e 0 = Some c" "c \<le> 10"
    by blast
  have w: "while_division ths (Finite e) 0 0 = Inr c"
    using while_division_walk[OF thresholds_nonzero[OF assms], of 0 e 0] c(1) by simp
  have "while_iterations ths (Finite e) 0 0 \<le> c - 0 + 1"
    using while_iterations_bound[OF _ w] by simp
  with c(2) w thresholds_length[OF assms]
  show "\<exists>c. while_division ths (Finite e) 0 0 = Inr c \<and> c < length ths
           \<and> while_iterations ths (Finite e) 0 0 \<le> length ths"
    by (intro exI[of _ c]) simp
next
  assume "15 \<le> e' \<and> e' \<le> 10 ^ 300"
  then have "15 \<le> e'" by (rule conjunct1)
  from walk_exhausted[OF assms this]
  show "while_division ths (Finite e') 0 0 = Inl IndexError"
    using while_division_walk[OF thresholds_nonzero[OF assms], of 0 e' 0] by simp
next
  assume "15 \<le> e' \<and> e' \<le> 10 ^ 300"
  then have "15 \<le> e'" by (rule conjunct1)
  from walk_exhausted[OF assms this]
  show "get_number_of_rectangles [Finite e'] FPS = Inl IndexError"
    using quantize_single[OF assms, of e'] by (simp add: ratio_level_def)
qed

theorem walk_in_table_upto_10_witness:
  "energy_thresholds 15 = Inr [6/10, 1, 15/10, 2, 25/10, 3, 35/10, 4, 5, 7, 10]
   \<and> (0::real) \<le> 10 \<and> (10::real) \<le> 10 \<and> (15::real) \<le> 16 \<and> (16::real) \<le> 10 ^ 300
   \<and> (\<exists>c. while_division [6/10, 1, 15/10, 2, 25/10, 3, 35/10, 4, 5, 7, 10] (Finite 10) 0 0
             = Inr c
          \<and> c < 11
          \<and> while_iterations [6/10, 1, 15/10, 2, 25/10, 3, 35/10, 4, 5, 7, 10] (Finite 10) 0 0
              \<le> 11)
   \<and> get_number_of_rectangles [Finite 16] 15 = Inl IndexError"
proof -
  have len: "length [6/10, 1, 15/10, 2, 25/10, 3, 35/10, 4, 5, 7, 10 :: real] = 11"
    by simp
  have b: "(16::real) \<le> 10 ^ 300" by simp
  show ?thesis
    using walk_in_table_upto_10[OF thresholds_15, of 10 16, unfolded len] b
    by (simp add: thresholds_15)
qed

text \<open>
  C10. At a ratio half-way between two integers the quantizer rounds to the even one:
  with the table of FPS 10, the energy 0.05 gets level 0 (0.05 / 0.1 = 0.5 rounds to 0)
  and the energy 0.4 gets level 3 (0.4 / 0.1 = 4 advances the counter, 0.4 / 0.8 = 0.5
  rounds to 0); in general \<open>k + 1/2\<close> rounds to \<open>k\<close> for even \<open>k\<close> and to \<open>k + 1\<close> for
  odd \<open>k\<close>.
\<close>

theorem quantizer_rounds_half_to_even:
  "get_number_of_rectangles [Finite (5 / 100)] 10 = Inr [0]
   \<and> get_number_of_rectangles [Finite (4 / 10)] 10 = Inr [3]
   \<and> py_round ((5 / 100) / (1 / 10)) = 0
   \<and> py_round ((4 / 10) / (1 / 10)) = 4
   \<and> py_round ((4 / 10) / (8 / 10)) = 0
   \<and> py_round (real_of_int k + 1 / 2) = (if even k then k else k + 1)"
  by (simp add: quantize_single[OF thresholds_10] ratio_level_def py_round_half)
    (simp add: py_round_def Let_def)

section \<open>Claim about the frame renderer\<close>

text \<open>
  C9, as stated, fails on the code at level 3: the columns next to the centre get the
  count \<open>3 - 2 = 1\<close> and draw one rectangle each, so a level below 4 does not leave them
  empty.
\<close>

theorem adjacent_column_level_3_counterexample:
  "column_rectangles (920, 690) (3 - 2) 20 6
     = [\<lparr> pt1 = (910, 687), pt2 = (930, 693), color = (0, 0, 150) \<rparr>]
   \<and> length (column_rectangles (920, 690) (3 - 2) 20 6) \<noteq> 0"
  by (simp add: column_rectangles_def draw_column_def upto_0_0 column_body_def
      cv2_rectangle_def rect_coords_def py_int_def Let_def)

text \<open>
  C9 (amended). For every activity level \<open>n\<close> (0 or odd) the renderer draws, from left
  to right, columns of \<open>n - 4\<close>, \<open>n - 2\<close>, \<open>n\<close>, \<open>n - 2\<close> and \<open>n - 4\<close> rectangles, a
  column whose count is 0 or negative drawing nothing; so the columns next to the
  centre are empty for levels below 3, the outer columns for levels below 5, and the
  counts satisfy outer \<open>\<le>\<close> adjacent \<open>\<le>\<close> centre.
\<close>

theorem column_counts:
  assumes "count = 0 \<or> (0 < count \<and> odd count)"
  shows "draw_rectangles img (cx, cy) count width height =
           img @ column_rectangles (cx - 80, cy) (count - 4) width height
               @ column_rectangles (cx - 40, cy) (count - 2) width height
               @ column_rectangles (cx, cy) count width height
               @ column_rectangles (cx + 40, cy) (count - 2) width height
               @ column_rectangles (cx + 80, cy) (count - 4) width height
         \<and> length (column_rectangles (cx, cy) count width height) = nat count
         \<and> length (column_rectangles (cx - 40, cy) (count - 2) width height) = nat (count - 2)
         \<and> length (column_rectangles (cx + 40, cy) (count - 2) width height) = nat (count - 2)
         \<and> length (column_rectangles (cx - 80, cy) (count - 4) width height) = nat (count - 4)
         \<and> length (column_rectangles (cx + 80, cy) (count - 4) width height) = nat (count - 4)
         \<and> length (column_rectangles (cx - 80, cy) (count - 4) width height)
             \<le> length (column_rectangles (cx - 40, cy) (count - 2) width height)
         \<and> length (column_rectangles (cx - 40, cy) (count - 2) width height)
             \<le> length (column_rectangles (cx, cy) count width height)"
proof -
  have len: "length (column_rectangles c k width height) = nat k"
    if "k \<le> 0 \<or> odd k" for c k
    using that column_rectangles_length_odd[of k c width height]
      column_rectangles_nonpos[of k c width height]
    by auto
  from assms have k0: "count \<le> 0 \<or> odd count" by auto
  from assms have k2: "count - 2 \<le> 0 \<or> odd (count - 2)" by auto
  from assms have k4: "count - 4 \<le> 0 \<or> odd (count - 4)" by auto
  show ?thesis
    by (simp add: draw_rectangles_columns len[OF k0] len[OF k2] len[OF k4]) arith
qed

theorem column_counts_witness:
  "((3::int) = 0 \<or> (0 < (3::int) \<and> odd (3::int)))
   \<and> draw_rectangles [] (960, 690) 3 20 6 =
        [] @ column_rectangles (960 - 80, 690) (3 - 4) 20 6
           @ column_rectangles (960 - 40, 690) (3 - 2) 20 6
           @ column_rectangles (960, 690) 3 20 6
           @ column_rectangles (960 + 40, 690) (3 - 2) 20 6
           @ column_rectangles (960 + 80, 690) (3 - 4) 20 6
   \<and> length (column_rectangles (960, 690) 3 20 6) = 3
   \<and> length (column_rectangles (960 - 40, 690) (3 - 2) 20 6) = 1
   \<and> length (column_rectangles (960 + 40, 690) (3 - 2) 20 6) = 1
   \<and> length (column_rectangles (960 - 80, 690) (3 - 4) 20 6) = 0
   \<and> length (column_rectangles (960 + 80, 690) (3 - 4) 20 6) = 0"
  using column_counts[of 3 "[]" 960 690 20 6] by simp

section \<open>Claim about the pipeline\<close>

text \<open>
  C4, as stated, fails on the code: with FPS 12 the script loads the audio and runs the
  energy analysis before the quantizer rejects the FPS.
\<close>

theorem unsupported_fps_counterexample:
  "fst (main (spec_lib [0, 1 / 2]) (\<lambda>r d. [[1], [0]]) ''a.mp3'' (1920, 1080) 12)
     = [LoadAudio, EnergyAnalysis, Quantization]
   \<and> snd (main (spec_lib [0, 1 / 2]) (\<lambda>r d. [[1], [0]]) ''a.mp3'' (1920, 1080) 12)
     = Inl ValueError"
  by (simp add: main_def load_and_process_audio_def spec_lib_def
      calculate_energy_level_of_chunks_def mean_energy_def mean_square_def
      get_number_of_rectangles_def energy_thresholds_def)

text \<open>
  C4 (amended). With an FPS other than 10 and 15 the pipeline ends in an error before
  any rendering or muxing, audio loading being the first stage entered; when loading and
  energy analysis succeed, the error is the \<open>ValueError\<close> of the quantizer's table
  selection, raised after both of them.
\<close>

theorem unsupported_fps_fails_in_quantizer:
  assumes "FPS \<noteq> 10" and "FPS \<noteq> 15"
  shows "(\<exists>trace err. main lib make_chunks audio_file_name img_size FPS = (trace, Inl err)
            \<and> hd trace = LoadAudio \<and> Rendering \<notin> set trace \<and> Muxing \<notin> set trace)
         \<and> (load_and_process_audio lib audio_file_name = Inr record0
              \<and> calculate_energy_level_of_chunks make_chunks record0 FPS = Inr energy
            \<longrightarrow> main lib make_chunks audio_file_name img_size FPS =
                  ([LoadAudio, EnergyAnalysis, Quantization], Inl ValueError))"
proof -
  have q: "get_number_of_rectangles es FPS = Inl ValueError" for es
    using assms by (simp add: get_number_of_rectangles_def energy_thresholds_def)
  show ?thesis
    by (auto simp: main_def q split: sum.splits)
qed

theorem unsupported_fps_fails_in_quantizer_witness:
  "(12::int) \<noteq> 10 \<and> (12::int) \<noteq> 15
   \<and> load_and_process_audio (spec_lib [0, 1 / 2]) ''a.mp3'' = Inr [- (1 / 2), 1 / 2]
   \<and> calculate_energy_level_of_chunks (\<lambda>r d. [[1], [0]]) [- (1 / 2), 1 / 2 :: real] 12
       = Inr [Finite 10, Finite 0]
   \<and> main (spec_lib [0, 1 / 2]) (\<lambda>r d. [[1], [0]]) ''a.mp3'' (1920, 1080) 12
       = ([LoadAudio, EnergyAnalysis, Quantization], Inl ValueError)"
proof -
  have l: "load_and_process_audio (spec_lib [0, 1 / 2]) ''a.mp3'' = Inr [- (1 / 2), 1 / 2]"
    by (simp add: load_and_process_audio_def spec_lib_def spec_normalize_def
        spec_remove_dc_offset_def peak_def)
  have a: "calculate_energy_level_of_chunks (\<lambda>r d. [[1], [0]]) [- (1 / 2), 1 / 2 :: real] 12
             = Inr [Finite 10, Finite 0]"
    by (simp add: calculate_energy_level_of_chunks_def mean_energy_def mean_square_def)
  show ?thesis
    using unsupported_fps_fails_in_quantizer[where FPS = 12 and lib = "spec_lib [0, 1 / 2]"
        and audio_file_name = "''a.mp3''" and ?record0.0 = "[- (1 / 2), 1 / 2]"
        and make_chunks = "\<lambda>r d. [[1], [0]]" and energy = "[Finite 10, Finite 0]"
        and img_size = "(1920, 1080)"] l a
    by simp
qed

end
